theory Spec2Isabelle
  imports Main
begin

section \<open>The consensus node of src/nodes/node.ts\<close>

subsection \<open>Data model\<close>

text \<open>
  Modelled from the spec: the type \<open>Value\<close> of \<open>../types\<close>, which is imported by
  \<open>node.ts\<close> but is not part of the sources. The spec gives it as the two binary symbols
  0 and 1 and the sentinel "?".
\<close>

datatype Value = V0 | V1 | VQ

text \<open>
  Modelled from the spec: the type \<open>NodeState\<close> of \<open>../types\<close>. The fields \<open>x\<close>,
  \<open>decided\<close> and \<open>k\<close> are nullable (\<open>None\<close> is \<open>null\<close>). The selectors carry the
  prefix \<open>ns_\<close>, since \<open>x\<close> and \<open>k\<close> are wanted as variable names.

  A round is a natural number: \<open>k\<close> starts at 1 and is only ever replaced by
  \<open>currentRound + 1\<close>, and peers stamp their messages with their own \<open>k\<close>.
\<close>

record NodeState =
  ns_killed :: bool
  ns_x :: "Value option"
  ns_decided :: "bool option"
  ns_k :: "nat option"

datatype msgType = proposal | vote

record ConsensusMessage =
  mtype :: msgType
  mvalue :: Value
  mround :: nat
  sender :: nat

text \<open>The parameters of \<open>node(nodeId, N, F, initialValue, isFaulty, ...)\<close>.\<close>

record Config =
  nodeId :: nat
  N :: nat
  F :: nat
  initialValue :: Value
  isFaulty :: bool

text \<open>
  A bucket is the object \<open>{ "0": 0, "1": 0, "?": 0 }\<close>: one counter for each of the three
  keys, which are the \<open>toString()\<close> of the three values. The two tables of the message log
  map a round to its bucket; a round that was never initialised is absent (\<open>undefined\<close>).
\<close>

type_synonym bucket = "Value \<Rightarrow> nat"

record MessageLog =
  proposals :: "nat \<rightharpoonup> bucket"
  votes :: "nat \<rightharpoonup> bucket"

definition emptyBucket :: bucket where
  "emptyBucket = (\<lambda>v. 0)"

text \<open>
  Reading a property of \<open>undefined\<close> throws a TypeError. \<open>NullRound\<close> marks the one place
  where the code asserts \<open>nodeState.k!\<close>; it is shown below that a run from the initial
  state reaches neither.
\<close>

datatype error = TypeError | NullRound

text \<open>
  \<open>runConsensusProtocol\<close> is an async function. Between two of its \<open>await\<close>s it runs
  without interruption, and while it is suspended the HTTP handlers (and other pending
  invocations of itself) run. A task is an invocation together with the point where it is
  suspended and the local constants it holds there:
  \<^item> \<open>Scheduled\<close>: \<open>setTimeout(runConsensusProtocol, 50)\<close> is pending;
  \<^item> \<open>ProposalGate r v\<close>: inside the \<open>while (!nodesAreReady())\<close> loop of the broadcast of the
    proposal \<open>v\<close> for round \<open>r\<close>;
  \<^item> \<open>ProposalSettle r\<close>: the proposal broadcast has returned, the 100 ms pause is running;
  \<^item> \<open>VoteGate r c\<close>: inside the loop of the broadcast of the vote \<open>c\<close>;
  \<^item> \<open>VoteSettle r c\<close>: the vote broadcast has returned, the second pause is running.
\<close>

datatype task =
    Scheduled
  | ProposalGate nat Value
  | ProposalSettle nat
  | VoteGate nat Value
  | VoteSettle nat Value

text \<open>
  The state of one node: its \<open>nodeState\<close>, its \<open>messageLog\<close>, the invocations of
  \<open>runConsensusProtocol\<close> that are pending, and the trace of every \<open>fetch\<close> it has issued
  (target node and message), oldest first.
\<close>

record sys =
  nodeState :: NodeState
  messageLog :: MessageLog
  tasks :: "task list"
  outbox :: "(nat \<times> ConsensusMessage) list"

definition initState :: "Config \<Rightarrow> sys" where
  "initState cfg =
     \<lparr> nodeState =
         \<lparr> ns_killed = False,
           ns_x = (if isFaulty cfg then None else Some (initialValue cfg)),
           ns_decided = (if isFaulty cfg then None else Some False),
           ns_k = (if isFaulty cfg then None else Some 1) \<rparr>,
       messageLog = \<lparr> proposals = Map.empty, votes = Map.empty \<rparr>,
       tasks = [],
       outbox = [] \<rparr>"

definition faultToleranceThreshold :: "Config \<Rightarrow> int" where
  "faultToleranceThreshold cfg = (int (N cfg) - 1) div 2"

definition isExceedingFaultLimit :: "Config \<Rightarrow> bool" where
  "isExceedingFaultLimit cfg = (int (F cfg) > faultToleranceThreshold cfg)"

subsection \<open>The message log\<close>

definition initializeRoundTracking :: "nat \<Rightarrow> MessageLog \<Rightarrow> MessageLog" where
  "initializeRoundTracking r log =
     (let log1 = (case proposals log r of
                    None \<Rightarrow> log\<lparr>proposals := (proposals log)(r \<mapsto> emptyBucket)\<rparr>
                  | Some _ \<Rightarrow> log)
      in case votes log1 r of
           None \<Rightarrow> log1\<lparr>votes := (votes log1)(r \<mapsto> emptyBucket)\<rparr>
         | Some _ \<Rightarrow> log1)"

text \<open>\<open>(round % 2) as Value\<close>\<close>

definition roundParity :: "nat \<Rightarrow> Value" where
  "roundParity r = (if r mod 2 = 0 then V0 else V1)"

definition determineConsensusValue :: "MessageLog \<Rightarrow> nat \<Rightarrow> error + Value" where
  "determineConsensusValue log r =
     (case proposals log r of
        None \<Rightarrow> Inl TypeError
      | Some p \<Rightarrow>
          Inr (if p V0 > p V1 then V0
               else if p V1 > p V0 then V1
               else roundParity r))"

definition checkFinalDecision :: "Config \<Rightarrow> MessageLog \<Rightarrow> nat \<Rightarrow> error + bool" where
  "checkFinalDecision cfg log r =
     (case votes log r of
        None \<Rightarrow> Inl TypeError
      | Some v \<Rightarrow> Inr ((v V0 \<ge> N cfg div 2 \<or> v V1 \<ge> N cfg div 2) \<and> r \<ge> 2))"

text \<open>The count that the log holds for a kind, a round and a value; 0 for an unseen round.\<close>

definition countOf :: "MessageLog \<Rightarrow> msgType \<Rightarrow> nat \<Rightarrow> Value \<Rightarrow> nat" where
  "countOf log t r v =
     (case (case t of proposal \<Rightarrow> proposals log r | vote \<Rightarrow> votes log r) of
        None \<Rightarrow> 0
      | Some b \<Rightarrow> b v)"

subsection \<open>The HTTP handlers\<close>

text \<open>\<open>node.post("/message")\<close>\<close>

definition postMessage :: "Config \<Rightarrow> ConsensusMessage \<Rightarrow> sys \<Rightarrow> error + sys" where
  "postMessage cfg m st =
     (if ns_killed (nodeState st) \<or> isFaulty cfg then Inr st
      else
        let log = initializeRoundTracking (mround m) (messageLog st)
        in case mtype m of
             proposal \<Rightarrow>
               (case proposals log (mround m) of
                  None \<Rightarrow> Inl TypeError
                | Some b \<Rightarrow>
                    Inr (st\<lparr>messageLog :=
                      log\<lparr>proposals := (proposals log)(mround m \<mapsto> b(mvalue m := b (mvalue m) + 1))\<rparr>\<rparr>))
           | vote \<Rightarrow>
               (case votes log (mround m) of
                  None \<Rightarrow> Inl TypeError
                | Some b \<Rightarrow>
                    Inr (st\<lparr>messageLog :=
                      log\<lparr>votes := (votes log)(mround m \<mapsto> b(mvalue m := b (mvalue m) + 1))\<rparr>\<rparr>)))"

text \<open>\<open>node.get("/start")\<close>: \<open>!nodeState.decided\<close> holds for \<open>false\<close> and for \<open>null\<close>.\<close>

definition start :: "Config \<Rightarrow> sys \<Rightarrow> sys" where
  "start cfg st =
     (if isFaulty cfg \<or> ns_killed (nodeState st) then st
      else if ns_decided (nodeState st) \<noteq> Some True then st\<lparr>tasks := tasks st @ [Scheduled]\<rparr>
      else st)"

text \<open>\<open>node.get("/stop")\<close>\<close>

definition stop :: "sys \<Rightarrow> sys" where
  "stop st = st\<lparr>nodeState := (nodeState st)\<lparr>ns_killed := True\<rparr>\<rparr>"

text \<open>\<open>node.get("/getState")\<close>: the JSON that is sent. \<open>nodeState.k || 0\<close> is 0 for \<open>null\<close>.\<close>

definition getState :: "Config \<Rightarrow> NodeState \<Rightarrow> NodeState" where
  "getState cfg ns =
     (if isFaulty cfg then
        \<lparr> ns_killed = ns_killed ns, ns_x = None, ns_decided = None, ns_k = None \<rparr>
      else if N cfg = 1 then
        \<lparr> ns_killed = ns_killed ns, ns_x = Some (initialValue cfg),
          ns_decided = Some True, ns_k = Some 1 \<rparr>
      else if isExceedingFaultLimit cfg then
        \<lparr> ns_killed = ns_killed ns, ns_x = ns_x ns, ns_decided = Some False,
          ns_k = Some (max (case ns_k ns of None \<Rightarrow> 0 | Some n \<Rightarrow> n) 11) \<rparr>
      else ns)"

subsection \<open>Broadcast\<close>

text \<open>The \<open>fetch\<close> calls of one broadcast: one for every node index below \<open>N\<close> but the own.\<close>

definition deliveries :: "Config \<Rightarrow> ConsensusMessage \<Rightarrow> (nat \<times> ConsensusMessage) list" where
  "deliveries cfg m = map (\<lambda>i. (i, m)) (filter (\<lambda>i. i \<noteq> nodeId cfg) [0..<N cfg])"

text \<open>
  \<open>broadcastMessage\<close> from its entry to its first suspension. \<open>ready\<close> is what
  \<open>nodesAreReady()\<close> answers. The result says whether the call is now waiting inside the
  loop (\<open>True\<close>) or has left it, with the deliveries issued or with none at all.
\<close>

definition broadcastMessage :: "Config \<Rightarrow> bool \<Rightarrow> ConsensusMessage \<Rightarrow> sys \<Rightarrow> sys \<times> bool" where
  "broadcastMessage cfg ready m st =
     (if ns_killed (nodeState st) \<or> isFaulty cfg then (st, False)
      else if \<not> ready then (st, True)
      else (st\<lparr>outbox := outbox st @ deliveries cfg m\<rparr>, False))"

text \<open>
  \<open>broadcastMessage\<close> when the 50 ms pause inside the loop is over: the killed flag is
  looked at first, then the loop condition again.
\<close>

definition broadcastResume :: "Config \<Rightarrow> bool \<Rightarrow> ConsensusMessage \<Rightarrow> sys \<Rightarrow> sys \<times> bool" where
  "broadcastResume cfg ready m st =
     (if ns_killed (nodeState st) then (st, False)
      else if \<not> ready then (st, True)
      else (st\<lparr>outbox := outbox st @ deliveries cfg m\<rparr>, False))"

subsection \<open>One round\<close>

text \<open>
  \<open>runConsensusProtocol\<close>, from the point where the task is suspended to its next
  suspension (\<open>Some\<close> of the new point) or to its end (\<open>None\<close>).
\<close>

fun runConsensusProtocol :: "Config \<Rightarrow> bool \<Rightarrow> task \<Rightarrow> sys \<Rightarrow> error + (sys \<times> task option)" where
  "runConsensusProtocol cfg ready Scheduled st =
     (if N cfg = 1 then
        Inr (st\<lparr>nodeState := (nodeState st)
               \<lparr>ns_decided := Some True, ns_x := Some (initialValue cfg), ns_k := Some 1\<rparr>\<rparr>, None)
      else if ns_killed (nodeState st) \<or> isFaulty cfg \<or> ns_decided (nodeState st) = Some True then
        Inr (st, None)
      else
        case ns_k (nodeState st) of
          None \<Rightarrow> Inl NullRound
        | Some currentRound \<Rightarrow>
            let st1 = st\<lparr>messageLog := initializeRoundTracking currentRound (messageLog st)\<rparr>;
                proposedValue = (case ns_x (nodeState st1) of
                                   Some v \<Rightarrow> v
                                 | None \<Rightarrow> roundParity currentRound);
                (st2, waiting) = broadcastMessage cfg ready
                   \<lparr> mtype = proposal, mvalue = proposedValue, mround = currentRound,
                     sender = nodeId cfg \<rparr> st1
            in Inr (st2, Some (if waiting then ProposalGate currentRound proposedValue
                              else ProposalSettle currentRound)))"
| "runConsensusProtocol cfg ready (ProposalGate currentRound proposedValue) st =
     (let (st1, waiting) = broadcastResume cfg ready
             \<lparr> mtype = proposal, mvalue = proposedValue, mround = currentRound,
               sender = nodeId cfg \<rparr> st
      in Inr (st1, Some (if waiting then ProposalGate currentRound proposedValue
                        else ProposalSettle currentRound)))"
| "runConsensusProtocol cfg ready (ProposalSettle currentRound) st =
     (case determineConsensusValue (messageLog st) currentRound of
        Inl e \<Rightarrow> Inl e
      | Inr consensusValue \<Rightarrow>
          let (st1, waiting) = broadcastMessage cfg ready
                 \<lparr> mtype = vote, mvalue = consensusValue, mround = currentRound,
                   sender = nodeId cfg \<rparr> st
          in Inr (st1, Some (if waiting then VoteGate currentRound consensusValue
                            else VoteSettle currentRound consensusValue)))"
| "runConsensusProtocol cfg ready (VoteGate currentRound consensusValue) st =
     (let (st1, waiting) = broadcastResume cfg ready
             \<lparr> mtype = vote, mvalue = consensusValue, mround = currentRound,
               sender = nodeId cfg \<rparr> st
      in Inr (st1, Some (if waiting then VoteGate currentRound consensusValue
                        else VoteSettle currentRound consensusValue)))"
| "runConsensusProtocol cfg ready (VoteSettle currentRound consensusValue) st =
     (case checkFinalDecision cfg (messageLog st) currentRound of
        Inl e \<Rightarrow> Inl e
      | Inr final \<Rightarrow>
          if final then
            Inr (st\<lparr>nodeState := (nodeState st)
                   \<lparr>ns_decided := Some True, ns_x := Some consensusValue\<rparr>\<rparr>, None)
          else if ns_decided (nodeState st) \<noteq> Some True then
            Inr (st\<lparr>nodeState := (nodeState st)
                   \<lparr>ns_k := Some (currentRound + 1), ns_x := Some (roundParity currentRound)\<rparr>\<rparr>,
                 Some Scheduled)
          else Inr (st, None))"

subsection \<open>Executions\<close>

text \<open>
  What can happen at a node: a message arrives, \<open>/start\<close> or \<open>/stop\<close> is requested, or
  the pending task number \<open>i\<close> is resumed while \<open>nodesAreReady()\<close> answers \<open>ready\<close>.
\<close>

datatype event = Message ConsensusMessage | Start | Stop | Resume nat bool

fun step :: "Config \<Rightarrow> event \<Rightarrow> sys \<Rightarrow> error + sys" where
  "step cfg (Message m) st = postMessage cfg m st"
| "step cfg Start st = Inr (start cfg st)"
| "step cfg Stop st = Inr (stop st)"
| "step cfg (Resume i ready) st =
     (if i < length (tasks st) then
        case runConsensusProtocol cfg ready (tasks st ! i) st of
          Inl e \<Rightarrow> Inl e
        | Inr (st1, None) \<Rightarrow> Inr (st1\<lparr>tasks := take i (tasks st1) @ drop (Suc i) (tasks st1)\<rparr>)
        | Inr (st1, Some t) \<Rightarrow> Inr (st1\<lparr>tasks := (tasks st1)[i := t]\<rparr>)
      else Inr st)"

fun exec :: "Config \<Rightarrow> event list \<Rightarrow> sys \<Rightarrow> error + sys" where
  "exec cfg [] st = Inr st"
| "exec cfg (e # es) st =
     (case step cfg e st of
        Inl err \<Rightarrow> Inl err
      | Inr st1 \<Rightarrow> exec cfg es st1)"

text \<open>What an observer sees after a list of events from the initial state.\<close>

definition stateAfter :: "Config \<Rightarrow> event list \<Rightarrow> error + NodeState" where
  "stateAfter cfg es =
     (case exec cfg es (initState cfg) of
        Inl err \<Rightarrow> Inl err
      | Inr st \<Rightarrow> Inr (nodeState st))"


subsection \<open>Invariants of an execution\<close>

text \<open>
  The round that a suspended task holds in \<open>currentRound\<close>; a scheduled invocation has
  not read one yet. A round is initialised in a log when both tables hold a bucket for it.
  A state is tracked when a node that is not faulty holds a round number and every round
  held by a pending task is initialised.
\<close>

fun taskRound :: "task \<Rightarrow> nat option" where
  "taskRound Scheduled = None"
| "taskRound (ProposalGate r v) = Some r"
| "taskRound (ProposalSettle r) = Some r"
| "taskRound (VoteGate r c) = Some r"
| "taskRound (VoteSettle r c) = Some r"

definition initialised :: "MessageLog \<Rightarrow> nat \<Rightarrow> bool" where
  "initialised log r = (proposals log r \<noteq> None \<and> votes log r \<noteq> None)"

definition tracked :: "Config \<Rightarrow> sys \<Rightarrow> bool" where
  "tracked cfg st =
     ((\<not> isFaulty cfg \<longrightarrow> ns_k (nodeState st) \<noteq> None) \<and>
      (\<forall>t \<in> set (tasks st). \<forall>r. taskRound t = Some r \<longrightarrow> initialised (messageLog st) r))"

subsection \<open>Concrete configurations, states and executions\<close>

text \<open>
  \<open>cfgA\<close> is node 0 of two nodes, none faulty; \<open>cfgSolo\<close> is a single node with
  \<open>F = 1\<close>; \<open>cfgOver\<close> is node 0 of three nodes with \<open>F = 2\<close>, above the threshold 1;
  \<open>cfgFaulty\<close> is a faulty node 0 of three. \<open>peerMessage\<close> is a message from node 1.
  \<open>stVote r\<close> is a state of round \<open>r\<close> in which one vote for 0 has arrived and no proposal.
  \<open>stTally\<close> is a state of round 2 in which one proposal for 1 and one vote for 0 have
  arrived.
  \<open>stGate\<close> is a node that was killed while the broadcast of its first proposal waits for
  the other nodes to be ready.

  \<open>evsRound2\<close> runs round 1 of \<open>cfgA\<close> and round 2 up to the second pause: in round 2 the
  peer's proposal of 1 arrives, the node votes 1, and the peer's vote for 0 arrives.

  \<open>evsTwoRuns\<close> runs round 1, then \<open>/start\<close> is requested a second time, so that two
  invocations run round 2. The first computes its candidate before the peer's proposal of 1
  arrives (a tie, so \<open>2 mod 2 = 0\<close>), the second after it (so 1). The peer's vote arrives and
  the first invocation decides.
\<close>

definition cfgA :: Config where
  "cfgA = \<lparr> nodeId = 0, N = 2, F = 0, initialValue = V0, isFaulty = False \<rparr>"

definition cfgSolo :: Config where
  "cfgSolo = \<lparr> nodeId = 0, N = 1, F = 1, initialValue = V0, isFaulty = False \<rparr>"

definition cfgOver :: Config where
  "cfgOver = \<lparr> nodeId = 0, N = 3, F = 2, initialValue = V1, isFaulty = False \<rparr>"

definition cfgFaulty :: Config where
  "cfgFaulty = \<lparr> nodeId = 0, N = 3, F = 1, initialValue = V0, isFaulty = True \<rparr>"

definition peerMessage :: "msgType \<Rightarrow> Value \<Rightarrow> nat \<Rightarrow> ConsensusMessage" where
  "peerMessage t v r = \<lparr> mtype = t, mvalue = v, mround = r, sender = 1 \<rparr>"

definition stVote :: "nat \<Rightarrow> sys" where
  "stVote r =
     \<lparr> nodeState = \<lparr> ns_killed = False, ns_x = Some V1, ns_decided = Some False, ns_k = Some r \<rparr>,
       messageLog = \<lparr> proposals = [r \<mapsto> emptyBucket], votes = [r \<mapsto> emptyBucket(V0 := 1)] \<rparr>,
       tasks = [VoteSettle r V1],
       outbox = [] \<rparr>"


definition stGate :: sys where
  "stGate =
     \<lparr> nodeState = \<lparr> ns_killed = True, ns_x = Some V0, ns_decided = Some False, ns_k = Some 1 \<rparr>,
       messageLog = \<lparr> proposals = [1 \<mapsto> emptyBucket], votes = [1 \<mapsto> emptyBucket] \<rparr>,
       tasks = [ProposalGate 1 V0],
       outbox = [] \<rparr>"


definition evsTwoRuns :: "event list" where
  "evsTwoRuns =
     [Start, Resume 0 True, Resume 0 True, Resume 0 True,
      Start, Resume 0 True, Resume 1 True,
      Resume 0 True, Message (peerMessage proposal V1 2), Resume 1 True,
      Message (peerMessage vote V0 2), Resume 0 True]"

section \<open>Properties\<close>

lemma roundParity_mod: "(roundParity r = V0) = (r mod 2 = 0)" "(roundParity r = V1) = (r mod 2 = 1)" "roundParity r \<noteq> VQ"
  by (auto simp: roundParity_def)

subsection \<open>The message log only grows\<close>

lemma initialised_initializeRoundTracking:
  "initialised (initializeRoundTracking r log) r"
  by (simp add: initialised_def initializeRoundTracking_def Let_def split: option.splits)

lemma initialised_mono_initializeRoundTracking:
  "initialised log r' \<Longrightarrow> initialised (initializeRoundTracking r log) r'"
  by (auto simp: initialised_def initializeRoundTracking_def Let_def split: option.splits)

lemma countOf_initializeRoundTracking:
  "countOf (initializeRoundTracking r log) t r' v = countOf log t r' v"
  by (cases t) (auto simp: countOf_def initializeRoundTracking_def Let_def emptyBucket_def split: option.splits)

lemma dom_initializeRoundTracking:
  "dom (proposals (initializeRoundTracking r log)) = insert r (dom (proposals log))"
  "dom (votes (initializeRoundTracking r log)) = insert r (dom (votes log))"
  by (auto simp: initializeRoundTracking_def Let_def split: option.splits if_splits)

lemma postMessage_total:
  "\<exists>st'. postMessage cfg m st = Inr st' \<and> nodeState st' = nodeState st \<and>
         tasks st' = tasks st \<and> outbox st' = outbox st \<and>
         (\<forall>r. initialised (messageLog st) r \<longrightarrow> initialised (messageLog st') r)"
proof (cases "ns_killed (nodeState st) \<or> isFaulty cfg")
  case True
  then show ?thesis by (simp add: postMessage_def)
next
  case False
  have i: "initialised (initializeRoundTracking (mround m) (messageLog st)) (mround m)"
    by (rule initialised_initializeRoundTracking)
  show ?thesis
  proof (cases "mtype m")
    case proposal
    with False i show ?thesis
      using initialised_mono_initializeRoundTracking [of "messageLog st" _ "mround m"]
      by (auto simp: postMessage_def Let_def initialised_def)
  next
    case vote
    with False i show ?thesis
      using initialised_mono_initializeRoundTracking [of "messageLog st" _ "mround m"]
      by (auto simp: postMessage_def Let_def initialised_def)
  qed
qed

subsection \<open>A killed node and a faulty node\<close>

lemma run_killed:
  assumes "ns_killed (nodeState st)" and "runConsensusProtocol cfg ready t st = Inr (st', t')"
  shows "ns_killed (nodeState st') \<and> outbox st' = outbox st"
  using assms
  by (cases t)
     (auto simp: broadcastMessage_def broadcastResume_def Let_def
           split: if_splits option.splits sum.splits)

lemma step_killed:
  assumes "ns_killed (nodeState st)" and "step cfg e st = Inr st'"
  shows "ns_killed (nodeState st') \<and> outbox st' = outbox st"
proof (cases e)
  case (Message m)
  with assms show ?thesis by (simp add: postMessage_def)
next
  case Start
  with assms show ?thesis by (auto simp: start_def)
next
  case Stop
  with assms show ?thesis by (auto simp: stop_def)
next
  case (Resume i ready)
  show ?thesis
  proof (cases "i < length (tasks st)")
    case True
    with assms Resume obtain st1 t' where
      r: "runConsensusProtocol cfg ready (tasks st ! i) st = Inr (st1, t')"
      and s: "st' = (case t' of None \<Rightarrow> st1\<lparr>tasks := take i (tasks st1) @ drop (Suc i) (tasks st1)\<rparr>
                               | Some t \<Rightarrow> st1\<lparr>tasks := (tasks st1)[i := t]\<rparr>)"
      by (auto split: sum.splits option.splits)
    from run_killed [OF assms(1) r] s show ?thesis
      by (cases t') auto
  next
    case False
    with assms Resume show ?thesis by simp
  qed
qed

lemma exec_killed:
  "ns_killed (nodeState st) \<Longrightarrow> exec cfg es st = Inr st' \<Longrightarrow>
     ns_killed (nodeState st') \<and> outbox st' = outbox st"
proof (induction es arbitrary: st)
  case Nil
  then show ?case by simp
next
  case (Cons e es)
  from Cons.prems(2) obtain st1 where s: "step cfg e st = Inr st1" and x: "exec cfg es st1 = Inr st'"
    by (auto split: sum.splits)
  from step_killed [OF Cons.prems(1) s] Cons.IH [OF _ x] show ?case by simp
qed

lemma step_faulty:
  assumes "isFaulty cfg" and "tasks st = []" and "step cfg e st = Inr st'"
  shows "tasks st' = [] \<and> outbox st' = outbox st"
  using assms by (cases e) (auto simp: postMessage_def start_def stop_def)

lemma exec_faulty:
  "isFaulty cfg \<Longrightarrow> tasks st = [] \<Longrightarrow> exec cfg es st = Inr st' \<Longrightarrow> outbox st' = outbox st"
proof (induction es arbitrary: st)
  case Nil
  then show ?case by simp
next
  case (Cons e es)
  from Cons.prems(3) obtain st1 where s: "step cfg e st = Inr st1" and x: "exec cfg es st1 = Inr st'"
    by (auto split: sum.splits)
  from step_faulty [OF Cons.prems(1,2) s] Cons.IH [OF Cons.prems(1) _ x] show ?case by simp
qed

subsection \<open>Tracked states\<close>

lemma run_tracked:
  assumes "tracked cfg st" and "t \<in> set (tasks st)"
  shows "\<exists>st' t'. runConsensusProtocol cfg ready t st = Inr (st', t') \<and>
           tasks st' = tasks st \<and>
           (\<not> isFaulty cfg \<longrightarrow> ns_k (nodeState st') \<noteq> None) \<and>
           (\<forall>r. initialised (messageLog st) r \<longrightarrow> initialised (messageLog st') r) \<and>
           (\<forall>t'' r. t' = Some t'' \<longrightarrow> taskRound t'' = Some r \<longrightarrow> initialised (messageLog st') r)"
proof (cases t)
  case Scheduled
  with assms show ?thesis
    by (auto simp: tracked_def broadcastMessage_def Let_def
          initialised_initializeRoundTracking initialised_mono_initializeRoundTracking
          split: option.splits)
next
  case (ProposalGate r v)
  with assms show ?thesis
    by (auto simp: tracked_def broadcastResume_def Let_def)
next
  case (ProposalSettle r)
  with assms have "initialised (messageLog st) r"
    by (auto simp: tracked_def)
  then obtain p where "proposals (messageLog st) r = Some p"
    by (auto simp: initialised_def)
  with assms ProposalSettle show ?thesis
    by (auto simp: tracked_def broadcastMessage_def Let_def determineConsensusValue_def)
next
  case (VoteGate r c)
  with assms show ?thesis
    by (auto simp: tracked_def broadcastResume_def Let_def)
next
  case (VoteSettle r c)
  with assms have "initialised (messageLog st) r"
    by (auto simp: tracked_def)
  then obtain b where "votes (messageLog st) r = Some b"
    by (auto simp: initialised_def)
  with assms VoteSettle show ?thesis
    by (auto simp: tracked_def checkFinalDecision_def)
qed

lemma step_tracked:
  assumes "tracked cfg st"
  shows "\<exists>st'. step cfg e st = Inr st' \<and> tracked cfg st'"
proof (cases e)
  case (Message m)
  from postMessage_total [of cfg m st] assms Message show ?thesis
    by (auto simp: tracked_def)
next
  case Start
  with assms show ?thesis by (auto simp: start_def tracked_def)
next
  case Stop
  with assms show ?thesis by (auto simp: stop_def tracked_def)
next
  case (Resume i ready)
  show ?thesis
  proof (cases "i < length (tasks st)")
    case False
    with assms Resume show ?thesis by simp
  next
    case True
    then have "tasks st ! i \<in> set (tasks st)" by simp
    from run_tracked [OF assms this, of ready] obtain st1 t' where
      r: "runConsensusProtocol cfg ready (tasks st ! i) st = Inr (st1, t')"
      and ts: "tasks st1 = tasks st"
      and k: "\<not> isFaulty cfg \<longrightarrow> ns_k (nodeState st1) \<noteq> None"
      and mono: "\<forall>r. initialised (messageLog st) r \<longrightarrow> initialised (messageLog st1) r"
      and new: "\<forall>t'' r. t' = Some t'' \<longrightarrow> taskRound t'' = Some r \<longrightarrow> initialised (messageLog st1) r"
      by blast
    from assms mono ts have old:
      "\<forall>t \<in> set (tasks st1). \<forall>r. taskRound t = Some r \<longrightarrow> initialised (messageLog st1) r"
      by (auto simp: tracked_def)
    show ?thesis
    proof (cases t')
      case None
      have "set (take i (tasks st1) @ drop (Suc i) (tasks st1)) \<subseteq> set (tasks st1)"
        using set_take_subset [of i "tasks st1"] set_drop_subset [of "Suc i" "tasks st1"] by auto
      with old k have "tracked cfg (st1\<lparr>tasks := take i (tasks st1) @ drop (Suc i) (tasks st1)\<rparr>)"
        unfolding tracked_def by (simp add: subset_iff) blast
      with r None True Resume show ?thesis by simp
    next
      case (Some t2)
      have "set ((tasks st1)[i := t2]) \<subseteq> insert t2 (set (tasks st1))"
        by (rule set_update_subset_insert)
      with old k new Some have "tracked cfg (st1\<lparr>tasks := (tasks st1)[i := t2]\<rparr>)"
        unfolding tracked_def by (simp add: subset_iff) blast
      with r Some True Resume show ?thesis by simp
    qed
  qed
qed

lemma exec_tracked:
  "tracked cfg st \<Longrightarrow> \<exists>st'. exec cfg es st = Inr st' \<and> tracked cfg st'"
proof (induction es arbitrary: st)
  case Nil
  then show ?case by simp
next
  case (Cons e es)
  from step_tracked [OF Cons.prems, of e] obtain st1 where
    s: "step cfg e st = Inr st1" and t: "tracked cfg st1" by blast
  from Cons.IH [OF t] s show ?case by simp
qed

lemma tracked_initState: "tracked cfg (initState cfg)"
  by (simp add: tracked_def initState_def)

subsection \<open>A decided node\<close>

text \<open>
  Once a node with \<open>N \<noteq> 1\<close> has decided, \<open>decided\<close> stays true and the round number
  stays what it is, in every execution. If moreover no invocation of the protocol is
  pending, \<open>x\<close> stays what it is too.
\<close>

lemma run_decided:
  assumes "ns_decided (nodeState st) = Some True" and "N cfg \<noteq> 1"
    and "runConsensusProtocol cfg ready t st = Inr (st', t')"
  shows "ns_decided (nodeState st') = Some True \<and> ns_k (nodeState st') = ns_k (nodeState st)"
  using assms
  by (cases t)
     (auto simp: broadcastMessage_def broadcastResume_def Let_def
           split: if_splits option.splits sum.splits)

lemma step_decided:
  assumes "ns_decided (nodeState st) = Some True" and "N cfg \<noteq> 1" and "step cfg e st = Inr st'"
  shows "ns_decided (nodeState st') = Some True \<and> ns_k (nodeState st') = ns_k (nodeState st)"
proof (cases e)
  case (Message m)
  with assms postMessage_total [of cfg m st] show ?thesis by auto
next
  case Start
  with assms show ?thesis by (auto simp: start_def)
next
  case Stop
  with assms show ?thesis by (auto simp: stop_def)
next
  case (Resume i ready)
  show ?thesis
  proof (cases "i < length (tasks st)")
    case True
    with assms Resume obtain st1 t' where
      r: "runConsensusProtocol cfg ready (tasks st ! i) st = Inr (st1, t')"
      and s: "st' = (case t' of None \<Rightarrow> st1\<lparr>tasks := take i (tasks st1) @ drop (Suc i) (tasks st1)\<rparr>
                               | Some t \<Rightarrow> st1\<lparr>tasks := (tasks st1)[i := t]\<rparr>)"
      by (auto split: sum.splits option.splits)
    from run_decided [OF assms(1,2) r] s show ?thesis
      by (cases t') auto
  next
    case False
    with assms Resume show ?thesis by simp
  qed
qed

lemma decided_round_frozen:
  "ns_decided (nodeState st) = Some True \<Longrightarrow> N cfg \<noteq> 1 \<Longrightarrow> exec cfg es st = Inr st' \<Longrightarrow>
     ns_decided (nodeState st') = Some True \<and> ns_k (nodeState st') = ns_k (nodeState st)"
proof (induction es arbitrary: st)
  case Nil
  then show ?case by simp
next
  case (Cons e es)
  from Cons.prems(3) obtain st1 where s: "step cfg e st = Inr st1" and x: "exec cfg es st1 = Inr st'"
    by (auto split: sum.splits)
  from step_decided [OF Cons.prems(1,2) s] Cons.IH [OF _ Cons.prems(2) x] show ?case by simp
qed

lemma step_decided_idle:
  assumes "ns_decided (nodeState st) = Some True" and "tasks st = []" and "step cfg e st = Inr st'"
  shows "ns_decided (nodeState st') = Some True \<and> tasks st' = [] \<and>
         ns_x (nodeState st') = ns_x (nodeState st) \<and> ns_k (nodeState st') = ns_k (nodeState st)"
proof (cases e)
  case (Message m)
  with assms postMessage_total [of cfg m st] show ?thesis by auto
next
  case Start
  with assms show ?thesis by (auto simp: start_def)
next
  case Stop
  with assms show ?thesis by (auto simp: stop_def)
next
  case (Resume i ready)
  with assms show ?thesis by simp
qed

lemma decided_idle_frozen:
  "ns_decided (nodeState st) = Some True \<Longrightarrow> tasks st = [] \<Longrightarrow> exec cfg es st = Inr st' \<Longrightarrow>
     ns_decided (nodeState st') = Some True \<and>
     ns_x (nodeState st') = ns_x (nodeState st) \<and> ns_k (nodeState st') = ns_k (nodeState st)"
proof (induction es arbitrary: st)
  case Nil
  then show ?case by simp
next
  case (Cons e es)
  from Cons.prems(3) obtain st1 where s: "step cfg e st = Inr st1" and x: "exec cfg es st1 = Inr st'"
    by (auto split: sum.splits)
  from step_decided_idle [OF Cons.prems(1,2) s] Cons.IH [OF _ _ x] show ?case by simp
qed

subsection \<open>The decision rule\<close>

text \<open>
  Claim C1. When the second pause of round \<open>r\<close> is over on an undecided node whose vote
  bucket for \<open>r\<close> is \<open>b\<close>, the node decides exactly if \<open>r \<ge> 2\<close> and the count of 0 or the
  count of 1 in \<open>b\<close> is at least \<open>N div 2\<close>, and the task ends exactly then. With
  \<open>b V0 = N div 2\<close> the node decides in a round \<open>r \<ge> 2\<close> and keeps its round number; in round
  1 it stays undecided, moves to round 2 and schedules the next round.
\<close>

theorem C1_finalization_rule:
  assumes "votes (messageLog st) r = Some b"
    and "ns_decided (nodeState st) = Some False"
  shows "\<exists>st' t. runConsensusProtocol cfg ready (VoteSettle r c) st = Inr (st', t) \<and>
      ((ns_decided (nodeState st') = Some True) = (2 \<le> r \<and> (N cfg div 2 \<le> b V0 \<or> N cfg div 2 \<le> b V1))) \<and>
      ((t = None) = (2 \<le> r \<and> (N cfg div 2 \<le> b V0 \<or> N cfg div 2 \<le> b V1))) \<and>
      (b V0 = N cfg div 2 \<and> 2 \<le> r \<longrightarrow> ns_decided (nodeState st') = Some True \<and> ns_k (nodeState st') = ns_k (nodeState st)) \<and>
      (b V0 = N cfg div 2 \<and> r = 1 \<longrightarrow>
         ns_decided (nodeState st') = Some False \<and> ns_k (nodeState st') = Some 2 \<and> t = Some Scheduled)"
  using assms by (auto simp: checkFinalDecision_def)

theorem C1_finalization_rule_witness:
  "votes (messageLog (stVote 2)) 2 = Some (emptyBucket(V0 := 1)) \<and>
   ns_decided (nodeState (stVote 2)) = Some False \<and>
   (\<exists>st' t. runConsensusProtocol cfgA True (VoteSettle 2 V1) (stVote 2) = Inr (st', t) \<and>
      ns_decided (nodeState st') = Some True \<and> t = None)"
proof -
  have v: "votes (messageLog (stVote 2)) 2 = Some (emptyBucket(V0 := 1))"
    by (simp add: stVote_def)
  have d: "ns_decided (nodeState (stVote 2)) = Some False"
    by (simp add: stVote_def)
  have n: "N cfgA div 2 = 1"
    by (simp add: cfgA_def)
  from C1_finalization_rule [OF v d, of cfgA True V1] obtain st' t where
    "runConsensusProtocol cfgA True (VoteSettle 2 V1) (stVote 2) = Inr (st', t)"
    "(ns_decided (nodeState st') = Some True) = (2 \<le> (2::nat) \<and> (N cfgA div 2 \<le> (emptyBucket(V0 := 1)) V0 \<or> N cfgA div 2 \<le> (emptyBucket(V0 := 1)) V1))"
    "(t = None) = (2 \<le> (2::nat) \<and> (N cfgA div 2 \<le> (emptyBucket(V0 := 1)) V0 \<or> N cfgA div 2 \<le> (emptyBucket(V0 := 1)) V1))"
    by blast
  then have "runConsensusProtocol cfgA True (VoteSettle 2 V1) (stVote 2) = Inr (st', t) \<and>
      ns_decided (nodeState st') = Some True \<and> t = None"
    using n by simp
  with v d show ?thesis by blast
qed




text \<open>
  Claim C4. When the finalization condition is not met in round \<open>r\<close> on an undecided node,
  the round number becomes \<open>r + 1\<close>, \<open>x\<close> becomes \<open>r mod 2\<close> whatever the candidate \<open>c\<close>
  was, and the next invocation is scheduled.
\<close>

theorem C4_advance:
  assumes "checkFinalDecision cfg (messageLog st) r = Inr False"
    and "ns_decided (nodeState st) \<noteq> Some True"
  shows "runConsensusProtocol cfg ready (VoteSettle r c) st =
           Inr (st\<lparr>nodeState := (nodeState st)\<lparr>ns_k := Some (r + 1), ns_x := Some (roundParity r)\<rparr>\<rparr>,
                Some Scheduled) \<and>
         (roundParity r = V0) = (r mod 2 = 0) \<and> (roundParity r = V1) = (r mod 2 = 1)"
  using assms by (simp add: roundParity_mod)

theorem C4_advance_witness:
  "checkFinalDecision cfgA (messageLog (stVote 1)) 1 = Inr False \<and>
   ns_decided (nodeState (stVote 1)) \<noteq> Some True \<and>
   runConsensusProtocol cfgA True (VoteSettle 1 V0) (stVote 1) =
     Inr ((stVote 1)\<lparr>nodeState := (nodeState (stVote 1))\<lparr>ns_k := Some 2, ns_x := Some V1\<rparr>\<rparr>,
          Some Scheduled)"
proof -
  have f: "checkFinalDecision cfgA (messageLog (stVote 1)) 1 = Inr False"
    by (simp add: checkFinalDecision_def stVote_def)
  have d: "ns_decided (nodeState (stVote 1)) \<noteq> Some True"
    by (simp add: stVote_def)
  from C4_advance [OF f d, of True V0] f d show ?thesis
    by (simp add: roundParity_def)
qed

text \<open>
  Claim C5. For a round \<open>r\<close> whose proposal bucket is \<open>p\<close>, the candidate is 0 if 0 has
  strictly more proposals, 1 if 1 has strictly more, and \<open>r mod 2\<close> if the counts are equal;
  it is never "?".
\<close>

theorem C5_candidate:
  assumes "proposals log r = Some p"
  shows "\<exists>c. determineConsensusValue log r = Inr c \<and>
           (p V1 < p V0 \<longrightarrow> c = V0) \<and>
           (p V0 < p V1 \<longrightarrow> c = V1) \<and>
           (p V0 = p V1 \<longrightarrow> (c = V0) = (r mod 2 = 0) \<and> (c = V1) = (r mod 2 = 1)) \<and>
           c \<noteq> VQ"
  using assms by (auto simp: determineConsensusValue_def roundParity_def)

theorem C5_candidate_witness:
  "proposals (messageLog (stVote 3)) 3 = Some emptyBucket \<and>
   determineConsensusValue (messageLog (stVote 3)) 3 = Inr V1"
proof -
  have p: "proposals (messageLog (stVote 3)) 3 = Some emptyBucket"
    by (simp add: stVote_def)
  from C5_candidate [OF p] obtain c where
    h: "determineConsensusValue (messageLog (stVote 3)) 3 = Inr c \<and>
        (emptyBucket V1 < emptyBucket V0 \<longrightarrow> c = V0) \<and>
        (emptyBucket V0 < emptyBucket V1 \<longrightarrow> c = V1) \<and>
        (emptyBucket V0 = emptyBucket V1 \<longrightarrow>
           (c = V0) = ((3::nat) mod 2 = 0) \<and> (c = V1) = ((3::nat) mod 2 = 1)) \<and>
        c \<noteq> VQ" ..
  from h have "c = V1"
    by (simp add: emptyBucket_def)
  with h p show ?thesis by simp
qed

subsection \<open>State queries\<close>

text \<open>
  Claim C3, as stated, fails. The single node of \<open>cfgSolo\<close> exceeds the fault limit
  (\<open>F = 1 > 0\<close>) and is not faulty, and it reports \<open>decided = true\<close> and \<open>k = 1\<close>.
\<close>

theorem C3_counterexample:
  "isExceedingFaultLimit cfgSolo \<and> \<not> isFaulty cfgSolo \<and>
   getState cfgSolo (nodeState (initState cfgSolo)) =
     \<lparr> ns_killed = False, ns_x = Some V0, ns_decided = Some True, ns_k = Some 1 \<rparr>"
  by (simp add: cfgSolo_def isExceedingFaultLimit_def faultToleranceThreshold_def getState_def
      initState_def)

text \<open>
  Claim C3, amended. When \<open>F\<close> exceeds the threshold, a node that is not faulty and has
  \<open>N \<noteq> 1\<close> reports \<open>decided = false\<close> and a round number of at least 11, whatever its
  internal state is.
\<close>

theorem C3_clamped_report:
  assumes "isExceedingFaultLimit cfg" and "\<not> isFaulty cfg" and "N cfg \<noteq> 1"
  shows "ns_decided (getState cfg ns) = Some False \<and>
         (\<exists>n. ns_k (getState cfg ns) = Some n \<and> 11 \<le> n)"
  using assms by (simp add: getState_def)

theorem C3_clamped_report_witness:
  "isExceedingFaultLimit cfgOver \<and> \<not> isFaulty cfgOver \<and> N cfgOver \<noteq> 1 \<and>
   ns_decided (getState cfgOver (nodeState (initState cfgOver))) = Some False \<and>
   (\<exists>n. ns_k (getState cfgOver (nodeState (initState cfgOver))) = Some n \<and> 11 \<le> n)"
proof -
  have e: "isExceedingFaultLimit cfgOver"
    by (simp add: cfgOver_def isExceedingFaultLimit_def faultToleranceThreshold_def)
  have f: "\<not> isFaulty cfgOver" and n: "N cfgOver \<noteq> 1"
    by (simp_all add: cfgOver_def)
  from C3_clamped_report [OF e f n, of "nodeState (initState cfgOver)"] e f n
  show ?thesis by blast
qed

text \<open>
  Claim C9. A node that is not faulty and has \<open>N = 1\<close> reports \<open>decided = true\<close>,
  \<open>x = initialValue\<close> and \<open>k = 1\<close> in every internal state and for every \<open>F\<close>: in the
  initial state, where \<open>/start\<close> has not been requested, and after \<open>/stop\<close>.
\<close>

theorem C9_single_node_report:
  assumes "\<not> isFaulty cfg" and "N cfg = 1"
  shows "getState cfg ns =
           \<lparr> ns_killed = ns_killed ns, ns_x = Some (initialValue cfg),
             ns_decided = Some True, ns_k = Some 1 \<rparr> \<and>
         getState cfg (nodeState (initState cfg)) =
           \<lparr> ns_killed = False, ns_x = Some (initialValue cfg),
             ns_decided = Some True, ns_k = Some 1 \<rparr> \<and>
         getState cfg (nodeState (stop st)) =
           \<lparr> ns_killed = True, ns_x = Some (initialValue cfg),
             ns_decided = Some True, ns_k = Some 1 \<rparr>"
  using assms by (simp add: getState_def initState_def stop_def)

theorem C9_single_node_report_witness:
  "\<not> isFaulty cfgSolo \<and> N cfgSolo = 1 \<and> isExceedingFaultLimit cfgSolo \<and>
   getState cfgSolo (nodeState (stop (initState cfgSolo))) =
     \<lparr> ns_killed = True, ns_x = Some V0, ns_decided = Some True, ns_k = Some 1 \<rparr>"
proof -
  have f: "\<not> isFaulty cfgSolo" and n: "N cfgSolo = 1"
    by (simp_all add: cfgSolo_def)
  have e: "isExceedingFaultLimit cfgSolo"
    by (simp add: cfgSolo_def isExceedingFaultLimit_def faultToleranceThreshold_def)
  from C9_single_node_report [OF f n, of "nodeState (initState cfgSolo)" "initState cfgSolo"]
  have "getState cfgSolo (nodeState (stop (initState cfgSolo))) =
     \<lparr> ns_killed = True, ns_x = Some (initialValue cfgSolo), ns_decided = Some True, ns_k = Some 1 \<rparr>"
    by blast
  then show ?thesis using f n e by (simp add: cfgSolo_def)
qed

subsection \<open>Inbound messages\<close>

text \<open>
  Claim C7. The handler of \<open>/message\<close> returns the state as it is when the node is killed
  or faulty. Otherwise it does not fail, it leaves \<open>nodeState\<close>, the pending tasks and the
  trace of deliveries as they are, and the count of every kind, round and value is what it
  was, plus one for the kind, round and value of the message; a round that was not seen
  counts 0 before. Both tables gain the round of the message and no other round.
\<close>

theorem C7_deliver:
  "(ns_killed (nodeState st) \<or> isFaulty cfg \<longrightarrow> postMessage cfg m st = Inr st) \<and>
   (\<not> ns_killed (nodeState st) \<and> \<not> isFaulty cfg \<longrightarrow>
      (\<exists>st'. postMessage cfg m st = Inr st' \<and>
         nodeState st' = nodeState st \<and> tasks st' = tasks st \<and> outbox st' = outbox st \<and>
         (\<forall>t r v. countOf (messageLog st') t r v =
            countOf (messageLog st) t r v +
              (if t = mtype m \<and> r = mround m \<and> v = mvalue m then 1 else 0)) \<and>
         dom (proposals (messageLog st')) = insert (mround m) (dom (proposals (messageLog st))) \<and>
         dom (votes (messageLog st')) = insert (mround m) (dom (votes (messageLog st)))))"
proof (intro conjI impI)
  assume "ns_killed (nodeState st) \<or> isFaulty cfg"
  then show "postMessage cfg m st = Inr st" by (simp add: postMessage_def)
next
  assume live: "\<not> ns_killed (nodeState st) \<and> \<not> isFaulty cfg"
  let ?log = "initializeRoundTracking (mround m) (messageLog st)"
  have i: "initialised ?log (mround m)"
    by (rule initialised_initializeRoundTracking)
  then obtain bp bv where bp: "proposals ?log (mround m) = Some bp"
    and bv: "votes ?log (mround m) = Some bv"
    by (auto simp: initialised_def)
  have c: "\<And>t r v. countOf ?log t r v = countOf (messageLog st) t r v"
    by (rule countOf_initializeRoundTracking)
  note d = dom_initializeRoundTracking [of "mround m" "messageLog st"]
  show "\<exists>st'. postMessage cfg m st = Inr st' \<and>
         nodeState st' = nodeState st \<and> tasks st' = tasks st \<and> outbox st' = outbox st \<and>
         (\<forall>t r v. countOf (messageLog st') t r v =
            countOf (messageLog st) t r v +
              (if t = mtype m \<and> r = mround m \<and> v = mvalue m then 1 else 0)) \<and>
         dom (proposals (messageLog st')) = insert (mround m) (dom (proposals (messageLog st))) \<and>
         dom (votes (messageLog st')) = insert (mround m) (dom (votes (messageLog st)))"
  proof (cases "mtype m")
    case proposal
    have p: "postMessage cfg m st = Inr (st\<lparr>messageLog :=
        ?log\<lparr>proposals := (proposals ?log)(mround m \<mapsto> bp(mvalue m := bp (mvalue m) + 1))\<rparr>\<rparr>)"
      using live proposal bp by (simp add: postMessage_def Let_def)
    have "\<And>t r v. countOf (?log\<lparr>proposals := (proposals ?log)(mround m \<mapsto> bp(mvalue m := bp (mvalue m) + 1))\<rparr>) t r v
        = countOf ?log t r v + (if t = mtype m \<and> r = mround m \<and> v = mvalue m then 1 else 0)"
      using proposal bp by (auto simp: countOf_def split: msgType.splits)
    with p c d show ?thesis by auto
  next
    case vote
    have p: "postMessage cfg m st = Inr (st\<lparr>messageLog :=
        ?log\<lparr>votes := (votes ?log)(mround m \<mapsto> bv(mvalue m := bv (mvalue m) + 1))\<rparr>\<rparr>)"
      using live vote bv by (simp add: postMessage_def Let_def)
    have "\<And>t r v. countOf (?log\<lparr>votes := (votes ?log)(mround m \<mapsto> bv(mvalue m := bv (mvalue m) + 1))\<rparr>) t r v
        = countOf ?log t r v + (if t = mtype m \<and> r = mround m \<and> v = mvalue m then 1 else 0)"
      using vote bv by (auto simp: countOf_def split: msgType.splits)
    with p c d show ?thesis by auto
  qed
qed

theorem C7_deliver_witness:
  "\<not> ns_killed (nodeState (initState cfgA)) \<and> \<not> isFaulty cfgA \<and>
   (\<exists>st'. postMessage cfgA (peerMessage vote V1 3) (initState cfgA) = Inr st' \<and>
      countOf (messageLog st') vote 3 V1 = 1 \<and>
      countOf (messageLog st') vote 3 V0 = 0 \<and>
      countOf (messageLog st') proposal 3 V1 = 0 \<and>
      dom (votes (messageLog st')) = {3} \<and>
      dom (proposals (messageLog st')) = {3}) \<and>
   ns_killed (nodeState stGate) \<and>
   postMessage cfgA (peerMessage vote V1 3) stGate = Inr stGate"
proof -
  let ?m = "peerMessage vote V1 3"
  note liveInst = C7_deliver [of "initState cfgA" cfgA ?m]
  note killedInst = C7_deliver [of stGate cfgA ?m]
  have l: "\<not> ns_killed (nodeState (initState cfgA)) \<and> \<not> isFaulty cfgA"
    by (simp add: initState_def cfgA_def)
  have k: "ns_killed (nodeState stGate)"
    by (simp add: stGate_def)
  from liveInst l obtain st' where
    p: "postMessage cfgA ?m (initState cfgA) = Inr st'"
    and c: "\<forall>t r v. countOf (messageLog st') t r v =
            countOf (messageLog (initState cfgA)) t r v +
              (if t = mtype ?m \<and> r = mround ?m \<and> v = mvalue ?m then 1 else 0)"
    and dp: "dom (proposals (messageLog st')) = insert (mround ?m) (dom (proposals (messageLog (initState cfgA))))"
    and dv: "dom (votes (messageLog st')) = insert (mround ?m) (dom (votes (messageLog (initState cfgA))))"
    by blast
  have z: "\<And>t r v. countOf (messageLog (initState cfgA)) t r v = 0"
    by (simp add: countOf_def initState_def split: msgType.splits)
  have m: "mtype ?m = vote" "mround ?m = 3" "mvalue ?m = V1"
    by (simp_all add: peerMessage_def)
  from c z m have c1: "countOf (messageLog st') vote 3 V1 = 1"
    and c2: "countOf (messageLog st') vote 3 V0 = 0"
    and c3: "countOf (messageLog st') proposal 3 V1 = 0"
    by simp_all
  from dp dv m have d: "dom (votes (messageLog st')) = {3}" "dom (proposals (messageLog st')) = {3}"
    by (simp_all add: initState_def)
  from killedInst k have 5: "postMessage cfgA ?m stGate = Inr stGate" by blast
  from l p c1 c2 c3 d k 5 show ?thesis by blast
qed

subsection \<open>Outbound messages\<close>

text \<open>
  Claim C6. \<open>broadcastMessage\<close> returns at once, with no delivery, when the node is killed
  or faulty; when the pause inside the readiness loop is over and the node is killed, the
  broadcast is abandoned with no delivery. Hence a killed node stays killed and issues no
  delivery in any execution, and a faulty node never issues one.
\<close>

theorem C6_no_transmission:
  "(ns_killed (nodeState st) \<or> isFaulty cfg \<longrightarrow> broadcastMessage cfg ready m st = (st, False)) \<and>
   (ns_killed (nodeState st) \<longrightarrow> broadcastResume cfg ready m st = (st, False)) \<and>
   (ns_killed (nodeState st) \<longrightarrow>
      (\<forall>st'. exec cfg es st = Inr st' \<longrightarrow> ns_killed (nodeState st') \<and> outbox st' = outbox st)) \<and>
   (isFaulty cfg \<longrightarrow> (\<forall>st'. exec cfg es (initState cfg) = Inr st' \<longrightarrow> outbox st' = []))"
proof (intro conjI impI allI)
  assume "ns_killed (nodeState st) \<or> isFaulty cfg"
  then show "broadcastMessage cfg ready m st = (st, False)"
    by (simp add: broadcastMessage_def)
next
  assume "ns_killed (nodeState st)"
  then show "broadcastResume cfg ready m st = (st, False)"
    by (simp add: broadcastResume_def)
next
  fix st'
  assume "ns_killed (nodeState st)" and "exec cfg es st = Inr st'"
  then show "ns_killed (nodeState st')" and "outbox st' = outbox st"
    using exec_killed by blast+
next
  fix st'
  assume f: "isFaulty cfg" and x: "exec cfg es (initState cfg) = Inr st'"
  have "tasks (initState cfg) = []" by (simp add: initState_def)
  from exec_faulty [OF f this x] show "outbox st' = []" by (simp add: initState_def)
qed

theorem C6_no_transmission_witness:
  "ns_killed (nodeState stGate) \<and>
   broadcastMessage cfgA True (peerMessage proposal V0 1) stGate = (stGate, False) \<and>
   broadcastResume cfgA True (peerMessage proposal V0 1) stGate = (stGate, False) \<and>
   (\<exists>st'. exec cfgA [Resume 0 True, Resume 0 True, Start] stGate = Inr st' \<and> outbox st' = []) \<and>
   isFaulty cfgFaulty \<and>
   (\<exists>st'. exec cfgFaulty [Start, Resume 0 True, Stop] (initState cfgFaulty) = Inr st' \<and>
          outbox st' = [])"
proof -
  let ?m = "peerMessage proposal V0 1"
  note killedInst = C6_no_transmission [of stGate cfgA True ?m "[Resume 0 True, Resume 0 True, Start]"]
  note faultyInst = C6_no_transmission [of "initState cfgFaulty" cfgFaulty True ?m "[Start, Resume 0 True, Stop]"]
  have k: "ns_killed (nodeState stGate)" and o: "outbox stGate = []"
    by (simp_all add: stGate_def)
  have f: "isFaulty cfgFaulty"
    by (simp add: cfgFaulty_def)
  have "\<exists>st'. exec cfgA [Resume 0 True, Resume 0 True, Start] stGate = Inr st'"
    by (simp add: stGate_def broadcastResume_def broadcastMessage_def determineConsensusValue_def
        start_def)
  then obtain s1 where s1: "exec cfgA [Resume 0 True, Resume 0 True, Start] stGate = Inr s1" ..
  have "\<exists>st'. exec cfgFaulty [Start, Resume 0 True, Stop] (initState cfgFaulty) = Inr st'"
    by (simp add: cfgFaulty_def initState_def start_def stop_def)
  then obtain s2 where s2: "exec cfgFaulty [Start, Resume 0 True, Stop] (initState cfgFaulty) = Inr s2" ..
  from killedInst k have 1: "broadcastMessage cfgA True ?m stGate = (stGate, False)"
    and 2: "broadcastResume cfgA True ?m stGate = (stGate, False)"
    by blast+
  from killedInst k s1 o have 3: "outbox s1 = []" by simp
  from faultyInst f s2 have 4: "outbox s2 = []" by blast
  from k 1 2 3 4 s1 s2 f show ?thesis by blast
qed

subsection \<open>Tally lookups\<close>

text \<open>
  Claim C10. After \<open>initializeRoundTracking r\<close> the reads of
  \<open>determineConsensusValue\<close> and \<open>checkFinalDecision\<close> for round \<open>r\<close> succeed; the handler
  of \<open>/message\<close> never fails; and every execution from the initial state runs to its end
  without a TypeError and without a null round number, whatever messages arrive and
  however the pending invocations are interleaved.
\<close>

theorem C10_lookups_total:
  "(\<exists>c. determineConsensusValue (initializeRoundTracking r log) r = Inr c) \<and>
   (\<exists>d. checkFinalDecision cfg (initializeRoundTracking r log) r = Inr d) \<and>
   (\<exists>st'. postMessage cfg m st = Inr st') \<and>
   (\<exists>st'. exec cfg es (initState cfg) = Inr st')"
proof -
  have "initialised (initializeRoundTracking r log) r"
    by (rule initialised_initializeRoundTracking)
  then obtain p b where "proposals (initializeRoundTracking r log) r = Some p"
    and "votes (initializeRoundTracking r log) r = Some b"
    by (auto simp: initialised_def)
  then have 1: "\<exists>c. determineConsensusValue (initializeRoundTracking r log) r = Inr c"
    and 2: "\<exists>d. checkFinalDecision cfg (initializeRoundTracking r log) r = Inr d"
    by (simp_all add: determineConsensusValue_def checkFinalDecision_def)
  from postMessage_total [of cfg m st] have 3: "\<exists>st'. postMessage cfg m st = Inr st'"
    by blast
  from exec_tracked [OF tracked_initState, of cfg es]
  have 4: "\<exists>st'. exec cfg es (initState cfg) = Inr st'"
    by blast
  from 1 2 3 4 show ?thesis by blast
qed

subsection \<open>After the decision\<close>

text \<open>
  Claim C8 does not hold of the code. After \<open>evsTwoRuns\<close> the node has decided with
  \<open>x = 0\<close>; the second invocation of round 2 is still pending, and when it resumes it finds
  the finalization condition met and overwrites \<open>x\<close> with its own candidate 1.
\<close>

theorem C8_second_run_overwrites:
  "stateAfter cfgA evsTwoRuns =
     Inr \<lparr> ns_killed = False, ns_x = Some V0, ns_decided = Some True, ns_k = Some 2 \<rparr> \<and>
   stateAfter cfgA (evsTwoRuns @ [Resume 0 True]) =
     Inr \<lparr> ns_killed = False, ns_x = Some V1, ns_decided = Some True, ns_k = Some 2 \<rparr>"
  by code_simp

end
